theory Spec2Isabelle
  imports Complex_Main
begin

section \<open>The wind-shade calculator (TOOL\_2\_Windshade\_Calculator.py)\<close>

text \<open>
  A shallow embedding of the shadow-casting engine of the class
  \<^verbatim>\<open>TOOLBOX_2_HILLSHADES\<close>: the strip sweep of \<^verbatim>\<open>_compute_shadow_octant\<close>, its
  one-dimensional gap fill, the 3x3 binary closing, the mask writer
  \<^verbatim>\<open>_write_shadow_mask\<close> and the backend selection of \<^verbatim>\<open>processAlgorithm\<close>.

  Python floats are modelled as real numbers: rounding, NaN and overflow of IEEE
  arithmetic are not represented, and \<^verbatim>\<open>float('inf')\<close> is represented only where the
  source produces it (the strip width, see \<open>strip_w\<close>). Numpy arrays are lists of rows;
  in-place updates return the updated array.
\<close>

subsection \<open>Data model\<close>

type_synonym mask = "bool list list"
type_synonym raster = "real list list"

text \<open>An entry \<^verbatim>\<open>(L_ij, i, j)\<close> of the list \<^verbatim>\<open>cells_i\<close>.\<close>

type_synonym cell = "real \<times> nat \<times> nat"

datatype error = QgsProcessingException string

text \<open>The dictionary returned by \<^verbatim>\<open>_prepare_dem\<close>; \<open>gt\<close> is GDAL's six-element geotransform.\<close>

record dem_info =
  dem_Z :: raster
  dem_mask_nd :: mask
  dem_nodata :: real
  dem_gt :: "real \<times> real \<times> real \<times> real \<times> real \<times> real"
  dem_proj :: string
  dem_ny :: nat
  dem_nx :: nat

definition gt_1 :: "real \<times> real \<times> real \<times> real \<times> real \<times> real \<Rightarrow> real" where
  "gt_1 g = (case g of (g0, g1, g2, g3, g4, g5) \<Rightarrow> g1)"

definition gt_5 :: "real \<times> real \<times> real \<times> real \<times> real \<times> real \<Rightarrow> real" where
  "gt_5 g = (case g of (g0, g1, g2, g3, g4, g5) \<Rightarrow> g5)"

text \<open>
  The attributes of \<^verbatim>\<open>self\<close> that the scan reads or writes: \<^verbatim>\<open>_EPS_M\<close> (set on first
  use) and the private class constant \<^verbatim>\<open>__RAY_GAP_MAX\<close>.
\<close>

record tool =
  self_EPS_M :: "real option"
  self_RAY_GAP_MAX :: "int option"

definition EDGE_BIAS_PX :: real where "EDGE_BIAS_PX = - (1 / 2)"
definition MAX_DIST :: real where "MAX_DIST = 0"
definition RAY_GAP_MAX :: "int option" where "RAY_GAP_MAX = Some 3"

text \<open>The rectangular shape \<^verbatim>\<open>(ny, nx)\<close> of an array.\<close>

definition has_shape :: "'a list list \<Rightarrow> nat \<Rightarrow> nat \<Rightarrow> bool" where
  "has_shape m n_rows n_cols \<longleftrightarrow> length m = n_rows \<and> list_all (\<lambda>r. length r = n_cols) m"

definition wf_dem :: "dem_info \<Rightarrow> bool" where
  "wf_dem dem \<longleftrightarrow> has_shape (dem_Z dem) (dem_ny dem) (dem_nx dem)
     \<and> has_shape (dem_mask_nd dem) (dem_ny dem) (dem_nx dem)"

definition zeros :: "nat \<Rightarrow> nat \<Rightarrow> mask" where
  "zeros n_rows n_cols = replicate n_rows (replicate n_cols False)"

text \<open>\<^verbatim>\<open>a[i, j] = v\<close>\<close>

definition set2 :: "'a list list \<Rightarrow> nat \<Rightarrow> nat \<Rightarrow> 'a \<Rightarrow> 'a list list" where
  "set2 m i j v = m[i := (m ! i)[j := v]]"

text \<open>\<^verbatim>\<open>a[mask] = v\<close> with a boolean index array of the same shape.\<close>

definition assign_where :: "mask \<Rightarrow> 'a \<Rightarrow> 'a list list \<Rightarrow> 'a list list" where
  "assign_where msk v a = map2 (\<lambda>mrow arow. map2 (\<lambda>b x. if b then v else x) mrow arow) msk a"

text \<open>\<^verbatim>\<open>~a\<close>\<close>

definition invert :: "mask \<Rightarrow> mask" where
  "invert m = map (map Not) m"

subsection \<open>Solar geometry\<close>

definition radians :: "real \<Rightarrow> real" where
  "radians x = x * pi / 180"

text \<open>Python's \<^verbatim>\<open>x % m\<close> on floats, for a positive modulus.\<close>

definition fmod :: "real \<Rightarrow> real \<Rightarrow> real" where
  "fmod x m = x - m * of_int \<lfloor>x / m\<rfloor>"

definition dir_eps :: real where
  "dir_eps = 1 / 10 ^ 9"

text \<open>The quantities the scan derives from the cell size and the light direction.\<close>

record sun_geom =
  g_tan_alt :: real
  g_dL_col :: real
  g_dL_row :: real
  g_dS_col :: real
  g_dS_row :: real

definition solar_geometry :: "real \<Rightarrow> real \<Rightarrow> real \<Rightarrow> real \<Rightarrow> sun_geom" where
  "solar_geometry cellx celly az alt =
    (let azr = radians (fmod (450 - az) 360);
         tan_alt = tan (radians alt);
         ux = - cos azr;
         uy = - sin azr;
         vx_col_x = cellx; vx_col_y = 0;
         vx_row_x = 0; vx_row_y = - celly;
         dL_col = vx_col_x * ux + vx_col_y * uy;
         dL_row = vx_row_x * ux + vx_row_y * uy;
         upx = - uy; upy = ux;
         dS_col = vx_col_x * upx + vx_col_y * upy;
         dS_row = vx_row_x * upx + vx_row_y * upy;
         dS_col = (if \<bar>dS_col\<bar> < dir_eps then 0 else dS_col);
         dS_row = (if \<bar>dS_row\<bar> < dir_eps then 0 else dS_row)
     in \<lparr>g_tan_alt = tan_alt, g_dL_col = dL_col, g_dL_row = dL_row,
         g_dS_col = dS_col, g_dS_row = dS_row\<rparr>)"

subsection \<open>Strip partitioner\<close>

text \<open>
  \<^verbatim>\<open>max(1e-9, min(|dS_col| or inf, |dS_row| or inf))\<close>. The value \<open>None\<close> stands for
  \<^verbatim>\<open>float('inf')\<close>, which the source obtains when both increments are zero.
\<close>

definition strip_w :: "sun_geom \<Rightarrow> real option" where
  "strip_w g =
    (if \<bar>g_dS_col g\<bar> > 0 then
       (if \<bar>g_dS_row g\<bar> > 0 then Some (max (1 / 10 ^ 9) (min \<bar>g_dS_col g\<bar> \<bar>g_dS_row g\<bar>))
        else Some (max (1 / 10 ^ 9) \<bar>g_dS_col g\<bar>))
     else
       (if \<bar>g_dS_row g\<bar> > 0 then Some (max (1 / 10 ^ 9) \<bar>g_dS_row g\<bar>)
        else None))"

text \<open>Python 3's \<^verbatim>\<open>round\<close>: to the nearest integer, ties to the even one.\<close>

definition py_round :: "real \<Rightarrow> int" where
  "py_round x =
    (let f = \<lfloor>x\<rfloor>; r = x - of_int f
     in if r < 1 / 2 then f else if r > 1 / 2 then f + 1 else if even f then f else f + 1)"

text \<open>\<^verbatim>\<open>S_vals\<close> at the four corners of the grid.\<close>

definition S_vals :: "sun_geom \<Rightarrow> nat \<Rightarrow> nat \<Rightarrow> real list" where
  "S_vals g n_rows n_cols =
     map (\<lambda>(i, j). of_int i * g_dS_row g + of_int j * g_dS_col g)
       [(0, 0), (0, int n_cols - 1), (int n_rows - 1, 0), (int n_rows - 1, int n_cols - 1)]"

text \<open>
  \<^verbatim>\<open>int(round(S / strip_w))\<close>; a finite \<open>S\<close> divided by \<^verbatim>\<open>inf\<close> is \<open>0.0\<close>.
\<close>

definition s_idx_of :: "real \<Rightarrow> real option \<Rightarrow> int" where
  "s_idx_of S w = (case w of Some wv \<Rightarrow> py_round (S / wv) | None \<Rightarrow> py_round 0)"

definition s_idx_min :: "sun_geom \<Rightarrow> nat \<Rightarrow> nat \<Rightarrow> int" where
  "s_idx_min g n_rows n_cols = s_idx_of (Min (set (S_vals g n_rows n_cols))) (strip_w g) - 1"

definition s_idx_max :: "sun_geom \<Rightarrow> nat \<Rightarrow> nat \<Rightarrow> int" where
  "s_idx_max g n_rows n_cols = s_idx_of (Max (set (S_vals g n_rows n_cols))) (strip_w g) + 1"

text \<open>\<^verbatim>\<open>range(s_idx_min, s_idx_max + 1)\<close>\<close>

definition strip_indices :: "sun_geom \<Rightarrow> nat \<Rightarrow> nat \<Rightarrow> int list" where
  "strip_indices g n_rows n_cols = [s_idx_min g n_rows n_cols .. s_idx_max g n_rows n_cols]"

text \<open>
  The columns \<^verbatim>\<open>j_range\<close> scanned in row \<open>i\<close> for a finite strip width; a row skipped
  by \<^verbatim>\<open>continue\<close> has the empty range.
\<close>

definition j_range :: "sun_geom \<Rightarrow> nat \<Rightarrow> real \<Rightarrow> real \<Rightarrow> nat \<Rightarrow> nat list" where
  "j_range g n_cols S_target half_w i =
    (if \<bar>g_dS_col g\<bar> > dir_eps then
       (let j_star = (S_target - real i * g_dS_row g) / g_dS_col g;
            j0 = max 0 \<lfloor>j_star - 1\<rfloor>;
            j1 = min (int n_cols - 1) \<lceil>j_star + 1\<rceil>
        in map nat [j0 .. j1])
     else
       (let S_row0 = real i * g_dS_row g
        in if \<bar>S_row0 - S_target\<bar> > half_w then [] else [0 ..< n_cols]))"

definition mk_cell :: "sun_geom \<Rightarrow> nat \<Rightarrow> nat \<Rightarrow> cell" where
  "mk_cell g i j = (real i * g_dL_row g + real j * g_dL_col g, i, j)"

definition S_ij :: "sun_geom \<Rightarrow> nat \<Rightarrow> nat \<Rightarrow> real" where
  "S_ij g i j = real i * g_dS_row g + real j * g_dS_col g"

text \<open>
  The cells appended to \<^verbatim>\<open>cells_i\<close> for strip \<open>s_idx\<close>, row by row. With an infinite
  strip width \<^verbatim>\<open>S_target\<close> is \<^verbatim>\<open>s_idx * inf\<close>: NaN for \<open>s_idx = 0\<close>, where the test
  \<^verbatim>\<open>abs(S_ij - S_target) <= half_w\<close> is false for every cell, and plus or minus
  \<^verbatim>\<open>inf\<close> otherwise, where it reads \<^verbatim>\<open>inf <= inf\<close> and holds for every cell; the row
  test \<^verbatim>\<open>abs(S_row0 - S_target) > half_w\<close> is false in both cases.
\<close>

definition strip_cells :: "sun_geom \<Rightarrow> mask \<Rightarrow> nat \<Rightarrow> nat \<Rightarrow> int \<Rightarrow> cell list" where
  "strip_cells g nd n_rows n_cols s_idx =
    (case strip_w g of
       Some w \<Rightarrow>
         (let S_target = of_int s_idx * w; half_w = (1 / 2) * w
          in concat (map (\<lambda>i.
               map (mk_cell g i)
                 (filter (\<lambda>j. \<bar>S_ij g i j - S_target\<bar> \<le> half_w \<and> \<not> nd ! i ! j)
                    (j_range g n_cols S_target half_w i)))
               [0 ..< n_rows]))
     | None \<Rightarrow>
         concat (map (\<lambda>i.
           map (mk_cell g i) (filter (\<lambda>j. s_idx \<noteq> 0 \<and> \<not> nd ! i ! j) [0 ..< n_cols]))
           [0 ..< n_rows]))"

subsection \<open>Horizon scanner\<close>

text \<open>
  The classification loop over the sorted cells of one strip, with its \<^verbatim>\<open>break\<close> at
  the maximum distance.
\<close>

fun sweep :: "real \<Rightarrow> real \<Rightarrow> real \<Rightarrow> real \<Rightarrow> raster \<Rightarrow> cell list \<Rightarrow> real \<Rightarrow> mask \<Rightarrow> mask" where
  "sweep tan_alt eps_m maxd L0 Zs [] horizon shadow = shadow"
| "sweep tan_alt eps_m maxd L0 Zs ((Lk, i, j) # rest) horizon shadow =
    (let d = Lk - L0;
         z = Zs ! i ! j;
         T = z + tan_alt * d;
         shadow' = (if horizon > T - eps_m then set2 shadow i j True else shadow);
         horizon' = (if T > horizon then T else horizon)
     in if maxd > 0 \<and> d > maxd then shadow'
        else sweep tan_alt eps_m maxd L0 Zs rest horizon' shadow')"

subsection \<open>One-dimensional gap fill\<close>

text \<open>\<^verbatim>\<open>while k < n_vals and not vals[k]: k += 1\<close>\<close>

function skip_lit :: "bool list \<Rightarrow> nat \<Rightarrow> nat" where
  "skip_lit vals k = (if k < length vals \<and> \<not> vals ! k then skip_lit vals (Suc k) else k)"
  by pat_completeness auto
termination
  by (relation "measure (\<lambda>(vals, k). length vals - k)") auto

declare skip_lit.simps [simp del]

text \<open>\<^verbatim>\<open>for t in range(start, end + 1): vals[t] = True\<close>\<close>

definition fill_run :: "bool list \<Rightarrow> nat \<Rightarrow> nat \<Rightarrow> bool list" where
  "fill_run vals start end = fold (\<lambda>t v. v[t := True]) [start ..< end + 1] vals"

text \<open>The outer \<^verbatim>\<open>while k < n_vals\<close> loop of the gap fill, from position \<open>k\<close>.\<close>

function gap_fill :: "int \<Rightarrow> bool list \<Rightarrow> nat \<Rightarrow> bool list" where
  "gap_fill gap_max vals k =
    (if k < length vals then
       (if vals ! k then gap_fill gap_max vals (Suc k)
        else
          (let start = k;
               k' = skip_lit vals k;
               end = k' - 1;
               gap_len = end - start + 1;
               left_true = (start \<ge> 1 \<and> vals ! (start - 1));
               right_true = (end + 1 < length vals \<and> vals ! (end + 1));
               vals' = (if left_true \<and> right_true \<and> int gap_len \<le> gap_max
                        then fill_run vals start end else vals)
           in gap_fill gap_max vals' k'))
     else vals)"
  by pat_completeness auto
termination
proof (relation "measure (\<lambda>(gap_max, vals, k). length vals - k)", goal_cases)
  case 1
  show ?case by simp
next
  case (2 gap_max vals k)
  then show ?case by auto
next
  case (3 gap_max vals k start k' "end" gap_len left_true right_true vals')
  have le: "m \<le> skip_lit vs m" for vs m
  proof (induction vs m rule: skip_lit.induct)
    case (1 vs m)
    show ?case
    proof (cases "m < length vs \<and> \<not> vs ! m")
      case True
      then have "Suc m \<le> skip_lit vs (Suc m)" using 1 by simp
      then show ?thesis using True by (subst skip_lit.simps) simp
    next
      case False
      then show ?thesis by (subst skip_lit.simps) auto
    qed
  qed
  have "k < skip_lit vals k" using 3 le [of "Suc k" vals] by (subst skip_lit.simps) simp
  then have "k < k'" using 3 by simp
  moreover have "length (fold (\<lambda>t v. v[t := True]) ts v) = length v" for ts and v :: "bool list"
    by (induction ts arbitrary: v) auto
  then have "length vals' = length vals" using 3 by (simp add: fill_run_def)
  ultimately show ?case using 3 by simp
qed

declare gap_fill.simps [simp del]

text \<open>\<^verbatim>\<open>for val, (_, i, j) in zip(vals, cells_i): shadow[i, j] = val\<close>\<close>

fun write_back :: "(bool \<times> cell) list \<Rightarrow> mask \<Rightarrow> mask" where
  "write_back [] shadow = shadow"
| "write_back ((val, (L, i, j)) # rest) shadow = write_back rest (set2 shadow i j val)"

text \<open>The body of the loop over the strips, for one strip index.\<close>

definition process_strip ::
    "sun_geom \<Rightarrow> real \<Rightarrow> real \<Rightarrow> int \<Rightarrow> dem_info \<Rightarrow> int \<Rightarrow> mask \<Rightarrow> mask" where
  "process_strip g eps_m maxd gap_max dem s_idx shadow =
    (let cells_i = strip_cells g (dem_mask_nd dem) (dem_ny dem) (dem_nx dem) s_idx
     in if cells_i = [] then shadow
        else
          (let cells_i = sort_key fst cells_i;
               L0 = fst (hd cells_i);
               horizon = - (10 ^ 38);
               shadow = sweep (g_tan_alt g) eps_m maxd L0 (dem_Z dem) cells_i horizon shadow
           in if gap_max > 0 then
                (let vals = map (\<lambda>(L, i, j). shadow ! i ! j) cells_i;
                     n_vals = length vals
                 in if n_vals \<ge> 3 then write_back (zip (gap_fill gap_max vals 0) cells_i) shadow
                    else shadow)
              else shadow))"

text \<open>
  The loop \<^verbatim>\<open>for si, s_idx in enumerate(range(s_idx_min, s_idx_max + 1))\<close>. The feedback
  object is absent (\<open>None\<close>) or answers \<^verbatim>\<open>isCanceled()\<close> at each strip counter \<open>si\<close>.
\<close>

fun strips_loop ::
    "(int \<Rightarrow> mask \<Rightarrow> mask) \<Rightarrow> (nat \<Rightarrow> bool) option \<Rightarrow> nat \<Rightarrow> int list \<Rightarrow> mask \<Rightarrow> error + mask" where
  "strips_loop body feedback si [] shadow = Inr shadow"
| "strips_loop body feedback si (s_idx # rest) shadow =
    (if (case feedback of None \<Rightarrow> False | Some isCanceled \<Rightarrow> isCanceled si)
     then Inl (QgsProcessingException ''Aborted'')
     else strips_loop body feedback (Suc si) rest (body s_idx shadow))"

subsection \<open>Two-dimensional morphology\<close>

text \<open>\<^verbatim>\<open>np.pad(m, 1, mode="constant", constant_values=False)\<close>\<close>

definition n_cols_of :: "'a list list \<Rightarrow> nat" where
  "n_cols_of m = (case m of [] \<Rightarrow> 0 | r # rs \<Rightarrow> length r)"

definition pad1 :: "mask \<Rightarrow> mask" where
  "pad1 m = replicate (n_cols_of m + 2) False # map (\<lambda>r. False # r @ [False]) m
              @ [replicate (n_cols_of m + 2) False]"

text \<open>
  \<^verbatim>\<open>_binary_dilate\<close>: the OR of the four (kernel 2) or nine (otherwise) shifted views of
  the padded array.
\<close>

definition binary_dilate :: "mask \<Rightarrow> nat \<Rightarrow> mask" where
  "binary_dilate mask_bool kernel_size =
    (let ny0 = length mask_bool; nx0 = n_cols_of mask_bool; padded = pad1 mask_bool
     in if kernel_size = 2 then
          map (\<lambda>i. map (\<lambda>j.
              padded ! i ! j \<or> padded ! i ! (j + 1)
            \<or> padded ! (i + 1) ! j \<or> padded ! (i + 1) ! (j + 1)) [0 ..< nx0]) [0 ..< ny0]
        else
          map (\<lambda>i. map (\<lambda>j.
              padded ! i ! j \<or> padded ! i ! (j + 1) \<or> padded ! i ! (j + 2)
            \<or> padded ! (i + 1) ! j \<or> padded ! (i + 1) ! (j + 1) \<or> padded ! (i + 1) ! (j + 2)
            \<or> padded ! (i + 2) ! j \<or> padded ! (i + 2) ! (j + 1) \<or> padded ! (i + 2) ! (j + 2))
            [0 ..< nx0]) [0 ..< ny0])"

text \<open>
  The closing pass: \<^verbatim>\<open>d1 = _binary_dilate(shadow, 3)\<close>,
  \<^verbatim>\<open>e1 = ~_binary_dilate(~d1, 3)\<close>.
\<close>

definition closing :: "mask \<Rightarrow> mask" where
  "closing shadow = (let d1 = binary_dilate shadow 3; e1 = invert (binary_dilate (invert d1) 3) in e1)"

subsection \<open>Mask writer\<close>

text \<open>
  \<^verbatim>\<open>_write_shadow_mask\<close>. The result is the shadow array after the in-place update
  \<^verbatim>\<open>shadow[mask_nd] = False\<close> (the array is shared with the caller) and the raster
  handed to GDAL. Every real is finite, so \<^verbatim>\<open>np.isfinite(Z)\<close> is true; the cast to
  \<^verbatim>\<open>float32\<close> is not represented.
\<close>

definition write_shadow_mask ::
    "dem_info \<Rightarrow> mask \<Rightarrow> real option \<Rightarrow> error + (mask \<times> raster)" where
  "write_shadow_mask dem shadow_bool const_val =
    (let Zs = dem_Z dem; mask_nd = dem_mask_nd dem; nodata = dem_nodata dem;
         shadow = shadow_bool
     in if \<not> has_shape shadow (dem_ny dem) (dem_nx dem)
        then Inl (QgsProcessingException ''Shadow mask dimensions do not match input raster.'')
        else
          (let shadow = assign_where mask_nd False shadow;
               mask_le = map2 (\<lambda>ndrow zrow. map2 (\<lambda>nd z. \<not> nd \<and> True \<and> z > 0) ndrow zrow) mask_nd Zs;
               c = (case const_val of Some v \<Rightarrow> v | None \<Rightarrow> 1);
               out = map (map (\<lambda>s. if s then c else 0)) shadow;
               out = (if \<bar>c - 5\<bar> < 1 / 10 ^ 6 then assign_where mask_le 5 out else out);
               out = assign_where mask_nd nodata out
           in Inr (shadow, out)))"

subsection \<open>The internal shadow scan\<close>

text \<open>
  The mask that \<^verbatim>\<open>_compute_shadow_octant\<close> passes to the writer: strips, forcing of the
  nodata cells, closing and the optional extra dilation.
\<close>

definition gap_max_of :: "tool \<Rightarrow> int" where
  "gap_max_of self =
    (let gap_max = (case self_RAY_GAP_MAX self of Some v \<Rightarrow> v | None \<Rightarrow> 0)
     in if gap_max < 0 then 0 else gap_max)"

definition eps_m_of :: "tool \<Rightarrow> real \<Rightarrow> real \<Rightarrow> real" where
  "eps_m_of self cellx celly =
    (case self_EPS_M self of None \<Rightarrow> (1 / 10 ^ 5) * max cellx celly | Some e \<Rightarrow> e)"

definition post_process :: "mask \<Rightarrow> mask \<Rightarrow> bool \<Rightarrow> nat \<Rightarrow> mask" where
  "post_process mask_nd shadow fat_shadow fat_kernel =
    (let shadow = assign_where mask_nd False shadow;
         shadow = closing shadow
     in if fat_shadow then binary_dilate shadow fat_kernel else shadow)"

text \<open>The shadow array after the loop over the strips, for a given geometry.\<close>

definition scan_strips ::
    "sun_geom \<Rightarrow> real \<Rightarrow> real \<Rightarrow> int \<Rightarrow> dem_info \<Rightarrow> (nat \<Rightarrow> bool) option \<Rightarrow> error + mask" where
  "scan_strips g eps_m maxd gap_max dem feedback =
    (let shadow = zeros (dem_ny dem) (dem_nx dem)
     in strips_loop (process_strip g eps_m maxd gap_max dem) feedback 0
          (strip_indices g (dem_ny dem) (dem_nx dem)) shadow)"

definition shadow_scan ::
    "tool \<Rightarrow> dem_info \<Rightarrow> real \<Rightarrow> real \<Rightarrow> real \<Rightarrow> (nat \<Rightarrow> bool) option \<Rightarrow> bool \<Rightarrow> nat
      \<Rightarrow> error + mask" where
  "shadow_scan self dem az alt maxd feedback fat_shadow fat_kernel =
    (let cellx = \<bar>gt_1 (dem_gt dem)\<bar>;
         celly = \<bar>gt_5 (dem_gt dem)\<bar>;
         eps_m = eps_m_of self cellx celly;
         g = solar_geometry cellx celly az alt;
         gap_max = gap_max_of self
     in case scan_strips g eps_m maxd gap_max dem feedback of
          Inl e \<Rightarrow> Inl e
        | Inr shadow \<Rightarrow> Inr (post_process (dem_mask_nd dem) shadow fat_shadow fat_kernel))"

text \<open>
  \<^verbatim>\<open>_compute_shadow_octant\<close>. The result is the updated \<^verbatim>\<open>self\<close> (the tolerance is
  stored before anything can raise) and either the exception raised or the shadow array
  as the writer leaves it together with the file written: its path and its raster.
\<close>

definition compute_shadow_octant ::
    "tool \<Rightarrow> dem_info \<Rightarrow> real \<Rightarrow> real \<Rightarrow> string \<Rightarrow> int \<Rightarrow> real \<Rightarrow> real \<Rightarrow> (nat \<Rightarrow> bool) option
      \<Rightarrow> real option \<Rightarrow> bool \<Rightarrow> nat \<Rightarrow> tool \<times> (error + (mask \<times> string \<times> raster))" where
  "compute_shadow_octant self dem az alt out_path octants maxd edge_bias_px feedback
      const_val fat_shadow fat_kernel =
    (let cellx = \<bar>gt_1 (dem_gt dem)\<bar>;
         celly = \<bar>gt_5 (dem_gt dem)\<bar>;
         self' = self\<lparr>self_EPS_M := Some (eps_m_of self cellx celly)\<rparr>
     in case shadow_scan self dem az alt maxd feedback fat_shadow fat_kernel of
          Inl e \<Rightarrow> (self', Inl e)
        | Inr shadow \<Rightarrow>
            (case write_shadow_mask dem shadow const_val of
               Inl e \<Rightarrow> (self', Inl e)
             | Inr (shadow', out) \<Rightarrow> (self', Inr (shadow', out_path, out))))"

subsection \<open>Backend selection in \<^verbatim>\<open>processAlgorithm\<close>\<close>

text \<open>\<^verbatim>\<open>str.lower\<close> on ASCII letters, and the substring test \<^verbatim>\<open>needle in text\<close>.\<close>

definition lower_char :: "char \<Rightarrow> char" where
  "lower_char c =
    (let n = (of_char c :: nat) in if 65 \<le> n \<and> n \<le> 90 then char_of (n + 32) else c)"

definition lower :: "string \<Rightarrow> string" where
  "lower s = map lower_char s"

fun starts_with :: "string \<Rightarrow> string \<Rightarrow> bool" where
  "starts_with [] s = True"
| "starts_with (p # ps) [] = False"
| "starts_with (p # ps) (c # cs) = (p = c \<and> starts_with ps cs)"

fun contains :: "string \<Rightarrow> string \<Rightarrow> bool" where
  "contains needle [] = (needle = [])"
| "contains needle (c # cs) = (starts_with needle (c # cs) \<or> contains needle cs)"

text \<open>
  The test on \<^verbatim>\<open>msg = str(saga_err).lower()\<close> that disables the backend; Python's
  \<^verbatim>\<open>and\<close> binds tighter than \<^verbatim>\<open>or\<close>.
\<close>

definition unavailable :: "string \<Rightarrow> bool" where
  "unavailable saga_err =
    (let msg = lower saga_err
     in contains ''not found'' msg
        \<or> (contains ''algorithm'' msg \<and> contains ''not'' msg \<and> contains ''found'' msg)
        \<or> contains ''sagang'' msg)"

text \<open>
  What the external backend does on one call: it returns a boolean mask or raises an
  exception with the given message.
\<close>

datatype saga_outcome = SagaReturns mask | SagaRaises string

text \<open>A complete row of the parameter table.\<close>

record table_row =
  row_out_path :: string
  row_az :: real
  row_alt :: real
  row_cval :: real

text \<open>How the file of a row was produced, or the error reported for the row.\<close>

datatype row_result = ViaSaga raster | ViaInternalScan raster | RowFailed error

record run_params =
  p_OCTANTS :: int
  p_fat_shadow :: bool
  p_fat_kernel :: nat

definition internal_row ::
    "tool \<Rightarrow> dem_info \<Rightarrow> run_params \<Rightarrow> (nat \<Rightarrow> bool) option \<Rightarrow> table_row \<Rightarrow> tool \<times> row_result" where
  "internal_row self dem ps feedback row =
    (case compute_shadow_octant self dem (row_az row) (row_alt row) (row_out_path row)
            (p_OCTANTS ps) MAX_DIST EDGE_BIAS_PX feedback (Some (row_cval row))
            (p_fat_shadow ps) (p_fat_kernel ps) of
       (self', Inl e) \<Rightarrow> (self', RowFailed e)
     | (self', Inr (shadow, path, out)) \<Rightarrow> (self', ViaInternalScan out))"

text \<open>
  The \<^verbatim>\<open>try\<close> block for one row: the state is \<^verbatim>\<open>saga_enabled\<close> and \<^verbatim>\<open>self\<close>. An
  exception of the writer inside the inner \<^verbatim>\<open>try\<close> is handled like one of the backend.
\<close>

definition process_row ::
    "dem_info \<Rightarrow> run_params \<Rightarrow> (nat \<Rightarrow> bool) option \<Rightarrow> saga_outcome \<Rightarrow> bool \<times> tool \<Rightarrow> table_row
      \<Rightarrow> (bool \<times> tool) \<times> row_result" where
  "process_row dem ps feedback saga st row =
    (case st of (saga_enabled, self) \<Rightarrow>
      if saga_enabled then
        (case (case saga of
                 SagaRaises saga_err \<Rightarrow> Inl saga_err
               | SagaReturns shadow_mask \<Rightarrow>
                   (case write_shadow_mask dem shadow_mask (Some (row_cval row)) of
                      Inl (QgsProcessingException saga_err) \<Rightarrow> Inl saga_err
                    | Inr (shadow, out) \<Rightarrow> Inr out)) of
           Inr out \<Rightarrow> ((saga_enabled, self), ViaSaga out)
         | Inl saga_err \<Rightarrow>
             (let saga_enabled = (if unavailable saga_err then False else saga_enabled)
              in case internal_row self dem ps feedback row of
                   (self', res) \<Rightarrow> ((saga_enabled, self'), res)))
      else
        (case internal_row self dem ps feedback row of
           (self', res) \<Rightarrow> ((saga_enabled, self'), res)))"

text \<open>
  The loop over the complete rows; \<open>saga idx\<close> is what the backend would do if called for
  row \<open>idx\<close>, and \<open>feedback idx\<close> the feedback seen by the scan of that row.
\<close>

fun rows_loop ::
    "dem_info \<Rightarrow> run_params \<Rightarrow> (nat \<Rightarrow> (nat \<Rightarrow> bool) option) \<Rightarrow> (nat \<Rightarrow> saga_outcome) \<Rightarrow> nat
      \<Rightarrow> bool \<times> tool \<Rightarrow> table_row list \<Rightarrow> (bool \<times> row_result) list" where
  "rows_loop dem ps feedback saga idx st [] = []"
| "rows_loop dem ps feedback saga idx st (row # rest) =
    (case process_row dem ps (feedback idx) (saga idx) st row of
       (st', res) \<Rightarrow> (fst st, res) # rows_loop dem ps feedback saga (Suc idx) st' rest)"

subsection \<open>Scenarios\<close>

text \<open>
  A grid of 10 by 10 cells of 1 m, nodata sentinel -9999, height 0 except
  \<^verbatim>\<open>height[5][5] = 10\<close>.
\<close>

definition spike_dem :: dem_info where
  "spike_dem =
    \<lparr>dem_Z = (replicate 10 (replicate 10 0))[5 := (replicate 10 0)[5 := 10]],
     dem_mask_nd = replicate 10 (replicate 10 False),
     dem_nodata = - 9999,
     dem_gt = (0, 1, 0, 10, 0, - 1),
     dem_proj = [],
     dem_ny = 10, dem_nx = 10\<rparr>"

definition spike_shadow :: mask where
  "spike_shadow = map (\<lambda>i. map (\<lambda>j. i = 5 \<and> 6 \<le> j \<and> j \<le> 9) [0 ..< 10]) [0 ..< (10::nat)]"

definition fresh_tool :: tool where
  "fresh_tool = \<lparr>self_EPS_M = None, self_RAY_GAP_MAX = RAY_GAP_MAX\<rparr>"

text \<open>The geometry of azimuth 270 and altitude 45 degrees on cells of 1 m.\<close>

definition geom_west_45 :: sun_geom where
  "geom_west_45 = \<lparr>g_tan_alt = 1, g_dL_col = 1, g_dL_row = 0, g_dS_col = 0, g_dS_row = - 1\<rparr>"

text \<open>A single lit cell of height 1.\<close>

definition unit_dem :: dem_info where
  "unit_dem =
    \<lparr>dem_Z = [[1]], dem_mask_nd = [[False]], dem_nodata = - 9999,
     dem_gt = (0, 1, 0, 1, 0, - 1), dem_proj = [], dem_ny = 1, dem_nx = 1\<rparr>"




text \<open>
  One row of four cells of 1 m: an obstacle of height 10, a ground cell, a nodata cell
  and another ground cell.
\<close>

definition gap_dem :: dem_info where
  "gap_dem =
    \<lparr>dem_Z = [[10, 0, 0, 0]], dem_mask_nd = [[False, False, True, False]],
     dem_nodata = - 9999,
     dem_gt = (0, 1, 0, 1, 0, - 1), dem_proj = [], dem_ny = 1, dem_nx = 4\<rparr>"




subsection \<open>Auxiliary notions\<close>

text \<open>Row or column indices that are equal or adjacent: the 3x3 neighbourhood.\<close>

definition near :: "nat \<Rightarrow> nat \<Rightarrow> bool" where
  "near a i \<longleftrightarrow> a \<le> i + 1 \<and> i \<le> a + 1"

text \<open>
  The projected height \<^verbatim>\<open>T = z + tan_alt * (Lk - L0)\<close> of a cell, and the cells the
  classification loop visits before its \<^verbatim>\<open>break\<close>.
\<close>

definition target :: "real \<Rightarrow> real \<Rightarrow> raster \<Rightarrow> cell \<Rightarrow> real" where
  "target tan_alt L0 Zs c = (case c of (Lk, i, j) \<Rightarrow> Zs ! i ! j + tan_alt * (Lk - L0))"

fun visited :: "real \<Rightarrow> real \<Rightarrow> cell list \<Rightarrow> cell list" where
  "visited maxd L0 [] = []"
| "visited maxd L0 (c # rest) =
     c # (if maxd > 0 \<and> fst c - L0 > maxd then [] else visited maxd L0 rest)"

text \<open>
  The classification rule in the words of the specification, on the projected heights
  of the visited cells in order: a cell is marked when the running horizon before it is
  strictly greater than \<open>T - eps\<close>, and the horizon then becomes the maximum of itself
  and \<open>T\<close>. The horizon \<open>None\<close> is minus infinity.
\<close>

fun horizon_rule :: "real \<Rightarrow> real option \<Rightarrow> real list \<Rightarrow> bool list" where
  "horizon_rule eps h [] = []"
| "horizon_rule eps h (T # Ts) =
     (case h of None \<Rightarrow> False | Some hv \<Rightarrow> hv > T - eps)
       # horizon_rule eps (Some (case h of None \<Rightarrow> T | Some hv \<Rightarrow> max hv T)) Ts"

text \<open>
  Inclusion of the shadowed cells of one mask in those of another of the same shape, and
  the pointwise order on the values of a strip.
\<close>

definition mask_le :: "mask \<Rightarrow> mask \<Rightarrow> nat \<Rightarrow> nat \<Rightarrow> bool" where
  "mask_le a b n_rows n_cols \<longleftrightarrow> has_shape a n_rows n_cols \<and> has_shape b n_rows n_cols
     \<and> (\<forall>i < n_rows. \<forall>j < n_cols. a ! i ! j \<longrightarrow> b ! i ! j)"



section \<open>Properties\<close>

subsection \<open>Shapes and cell access\<close>

lemma has_shape_nth:
  "has_shape m n_rows n_cols \<Longrightarrow> i < n_rows \<Longrightarrow> length (m ! i) = n_cols"
  by (auto simp: has_shape_def list_all_length)

lemma has_shape_length: "has_shape m n_rows n_cols \<Longrightarrow> length m = n_rows"
  by (simp add: has_shape_def)

lemma has_shapeI:
  "length m = n_rows \<Longrightarrow> (\<And>i. i < n_rows \<Longrightarrow> length (m ! i) = n_cols) \<Longrightarrow> has_shape m n_rows n_cols"
  by (auto simp: has_shape_def list_all_length)

lemma assign_where_shape:
  "has_shape msk n_rows n_cols \<Longrightarrow> has_shape a n_rows n_cols
    \<Longrightarrow> has_shape (assign_where msk v a) n_rows n_cols"
  by (rule has_shapeI) (auto simp: assign_where_def has_shape_def list_all_length)

lemma assign_where_nth:
  "has_shape msk n_rows n_cols \<Longrightarrow> has_shape a n_rows n_cols \<Longrightarrow> i < n_rows \<Longrightarrow> j < n_cols
    \<Longrightarrow> assign_where msk v a ! i ! j = (if msk ! i ! j then v else a ! i ! j)"
  by (auto simp: assign_where_def has_shape_def list_all_length)

subsection \<open>The mask writer\<close>

lemma write_shadow_mask_cell:
  assumes "wf_dem dem" and "has_shape shadow (dem_ny dem) (dem_nx dem)"
    and "i < dem_ny dem" and "j < dem_nx dem"
  shows "\<exists>shadow' out. write_shadow_mask dem shadow const_val = Inr (shadow', out)
      \<and> shadow' ! i ! j = (if dem_mask_nd dem ! i ! j then False else shadow ! i ! j)
      \<and> out ! i ! j =
          (let c = (case const_val of Some v \<Rightarrow> v | None \<Rightarrow> 1)
           in if dem_mask_nd dem ! i ! j then dem_nodata dem
              else if \<bar>c - 5\<bar> < 1 / 10 ^ 6 \<and> dem_Z dem ! i ! j > 0 then 5
              else if shadow ! i ! j then c else 0)"
proof -
  let ?nd = "dem_mask_nd dem" and ?ny = "dem_ny dem" and ?nx = "dem_nx dem"
  let ?c = "case const_val of Some v \<Rightarrow> v | None \<Rightarrow> 1"
  let ?sh = "assign_where ?nd False shadow"
  let ?le = "map2 (\<lambda>ndrow zrow. map2 (\<lambda>nd z. \<not> nd \<and> True \<and> z > 0) ndrow zrow) ?nd (dem_Z dem)"
  let ?o1 = "map (map (\<lambda>s. if s then ?c else 0)) ?sh"
  have nd: "has_shape ?nd ?ny ?nx" and z: "has_shape (dem_Z dem) ?ny ?nx"
    using assms(1) by (simp_all add: wf_dem_def)
  have sh: "has_shape ?sh ?ny ?nx" by (rule assign_where_shape [OF nd assms(2)])
  have shv: "?sh ! i ! j = (if ?nd ! i ! j then False else shadow ! i ! j)"
    by (rule assign_where_nth [OF nd assms(2-4)])
  have le: "has_shape ?le ?ny ?nx"
    using nd z by (intro has_shapeI) (auto simp: has_shape_def list_all_length)
  have lev: "?le ! i ! j = (\<not> ?nd ! i ! j \<and> dem_Z dem ! i ! j > 0)"
    using nd z assms(3,4) by (auto simp: has_shape_def list_all_length)
  have o1: "has_shape ?o1 ?ny ?nx"
    using sh by (intro has_shapeI) (auto simp: has_shape_def list_all_length)
  have o1v: "?o1 ! i ! j = (if ?sh ! i ! j then ?c else 0)"
    using sh assms(3,4) by (auto simp: has_shape_def list_all_length)
  let ?o2 = "if \<bar>?c - 5\<bar> < 1 / 10 ^ 6 then assign_where ?le 5 ?o1 else ?o1"
  have o2: "has_shape ?o2 ?ny ?nx" using o1 assign_where_shape [OF le o1] by simp
  have o2v: "?o2 ! i ! j = (if \<bar>?c - 5\<bar> < 1 / 10 ^ 6 \<and> ?le ! i ! j then 5 else ?o1 ! i ! j)"
    using assign_where_nth [OF le o1 assms(3,4), of 5] by simp
  have o3v: "assign_where ?nd (dem_nodata dem) ?o2 ! i ! j
      = (if ?nd ! i ! j then dem_nodata dem else ?o2 ! i ! j)"
    by (rule assign_where_nth [OF nd o2 assms(3,4)])
  have "write_shadow_mask dem shadow const_val
      = Inr (?sh, assign_where ?nd (dem_nodata dem) ?o2)"
    using assms(2) by (simp add: write_shadow_mask_def Let_def)
  moreover have "assign_where ?nd (dem_nodata dem) ?o2 ! i ! j =
          (let c = ?c
           in if ?nd ! i ! j then dem_nodata dem
              else if \<bar>c - 5\<bar> < 1 / 10 ^ 6 \<and> dem_Z dem ! i ! j > 0 then 5
              else if shadow ! i ! j then c else 0)"
    unfolding o3v o2v lev o1v shv by (simp add: Let_def)
  ultimately show ?thesis using shv by blast
qed

text \<open>
  Claim C7, as stated, fails: for the constant 5.0000005, which is not 5, a lit cell of
  positive elevation receives 5 and not 0.0, because the writer compares the constant
  with 5 up to a tolerance of 1e-6.
\<close>

theorem class5_override_counterexample:
  "(5 + 1 / 2000000 :: real) \<noteq> 5
    \<and> write_shadow_mask unit_dem [[False]] (Some (5 + 1 / 2000000)) = Inr ([[False]], [[5]])
    \<and> (5 :: real) \<noteq> 0"
  by (simp add: write_shadow_mask_def unit_dem_def has_shape_def assign_where_def Let_def)

text \<open>
  Claim C7, amended: the writer succeeds on a mask of the raster's shape; a nodata cell
  receives the nodata sentinel; when the constant \<open>c\<close> lies within 1e-6 of 5 (in
  particular when it equals 5) every other cell of strictly positive elevation receives
  5 whatever its shadow state; and every remaining cell (all of them when \<open>c\<close> differs
  from 5 by 1e-6 or more) receives \<open>c\<close> if shadowed and 0.0 if lit. A missing constant is
  read as 1.0.
\<close>

theorem class5_override:
  assumes "wf_dem dem" and "has_shape shadow (dem_ny dem) (dem_nx dem)"
    and "i < dem_ny dem" and "j < dem_nx dem"
  shows "\<exists>shadow' out. write_shadow_mask dem shadow (Some c) = Inr (shadow', out)
      \<and> out ! i ! j =
          (if dem_mask_nd dem ! i ! j then dem_nodata dem
           else if \<bar>c - 5\<bar> < 1 / 10 ^ 6 \<and> dem_Z dem ! i ! j > 0 then 5
           else if shadow ! i ! j then c else 0)"
  using write_shadow_mask_cell [OF assms, of "Some c"] by (auto simp: Let_def)

theorem class5_override_witness:
  "wf_dem unit_dem \<and> has_shape [[False]] (dem_ny unit_dem) (dem_nx unit_dem)
    \<and> 0 < dem_ny unit_dem \<and> 0 < dem_nx unit_dem
    \<and> (\<exists>shadow' out. write_shadow_mask unit_dem [[False]] (Some 5) = Inr (shadow', out)
          \<and> out ! 0 ! 0 = 5)"
proof -
  have wf: "wf_dem unit_dem" by (simp add: wf_dem_def unit_dem_def has_shape_def)
  have sh: "has_shape [[False]] (dem_ny unit_dem) (dem_nx unit_dem)"
    by (simp add: unit_dem_def has_shape_def)
  have i: "0 < dem_ny unit_dem" and j: "0 < dem_nx unit_dem" by (simp_all add: unit_dem_def)
  from class5_override [OF wf sh i j, of 5]
  have "\<exists>shadow' out. write_shadow_mask unit_dem [[False]] (Some 5) = Inr (shadow', out)
          \<and> out ! 0 ! 0 = 5"
    by (simp add: unit_dem_def)
  with wf sh i j show ?thesis by blast
qed

subsection \<open>Backend selection\<close>

text \<open>
  Claim C9: when the backend raises on a row while it is enabled, the row is produced by
  the internal scan, and the backend is disabled for the following rows exactly when the
  message is recognised by \<open>unavailable\<close>; otherwise it stays enabled and the next row
  tries it again. Once disabled, the backend stays disabled.
\<close>

theorem backend_fallback:
  "process_row dem ps fb (SagaRaises err) (True, self) row
      = ((\<not> unavailable err, fst (internal_row self dem ps fb row)),
         snd (internal_row self dem ps fb row))
   \<and> rows_loop dem ps feedback (\<lambda>k. if k = idx then SagaRaises err else saga k) idx
        (True, self) (row # rest)
      = (True, snd (internal_row self dem ps (feedback idx) row))
        # rows_loop dem ps feedback (\<lambda>k. if k = idx then SagaRaises err else saga k) (Suc idx)
            (\<not> unavailable err, fst (internal_row self dem ps (feedback idx) row)) rest
   \<and> fst (fst (process_row dem ps fb outcome (False, self) row)) = False
   \<and> snd (process_row dem ps fb outcome (False, self) row)
       = snd (internal_row self dem ps fb row)"
  by (simp add: process_row_def split: prod.splits)

subsection \<open>Unused arguments\<close>

text \<open>
  Claim C10: the arguments \<^verbatim>\<open>octants\<close> and \<^verbatim>\<open>edge_bias_px\<close> of
  \<^verbatim>\<open>_compute_shadow_octant\<close> do not influence its result: two calls that differ only
  in them return the same state, shadow array and written raster.
\<close>

theorem octants_and_edge_bias_unused:
  "compute_shadow_octant self dem az alt out_path octants1 maxd edge_bias_px1 feedback
      const_val fat_shadow fat_kernel
   = compute_shadow_octant self dem az alt out_path octants2 maxd edge_bias_px2 feedback
      const_val fat_shadow fat_kernel"
  by (simp add: compute_shadow_octant_def)

subsection \<open>Binary morphology\<close>

lemma near_sym: "near a i \<Longrightarrow> near i a" by (simp add: near_def)

lemma n_cols_of_shape: "has_shape m n_rows n_cols \<Longrightarrow> 0 < n_rows \<Longrightarrow> n_cols_of m = n_cols"
  by (cases m) (auto simp: has_shape_def n_cols_of_def)

lemma pad1_nth:
  assumes "has_shape m n_rows n_cols" and "p \<le> n_rows + 1" and "q \<le> n_cols + 1" and "0 < n_rows"
  shows "pad1 m ! p ! q
    = (1 \<le> p \<and> p \<le> n_rows \<and> 1 \<le> q \<and> q \<le> n_cols \<and> m ! (p - 1) ! (q - 1))"
proof -
  have len: "length m = n_rows" and nc: "n_cols_of m = n_cols"
    using assms(1) n_cols_of_shape [OF assms(1,4)] by (auto simp: has_shape_def)
  have q: "q < n_cols + 2" using assms(3) by simp
  have rep: "replicate (n_cols + 2) False ! q = False" by (rule nth_replicate [OF q])
  consider "p = 0" | "1 \<le> p" "p \<le> n_rows" | "p = n_rows + 1" using assms(2) by linarith
  then show ?thesis
  proof cases
    case 1
    then have "pad1 m ! p = replicate (n_cols + 2) False" by (simp add: pad1_def nc)
    then show ?thesis using 1 rep by simp
  next
    case 2
    then have p1: "p - 1 < length m" using len by arith
    have "pad1 m ! p = (map (\<lambda>r. False # r @ [False]) m @ [replicate (n_cols_of m + 2) False]) ! (p - 1)"
      using 2 by (simp add: pad1_def nth_Cons')
    also have "\<dots> = map (\<lambda>r. False # r @ [False]) m ! (p - 1)"
      using p1 by (simp add: nth_append)
    also have "\<dots> = False # m ! (p - 1) @ [False]"
      using p1 by simp
    finally have row: "pad1 m ! p = False # m ! (p - 1) @ [False]" .
    have lr: "length (m ! (p - 1)) = n_cols"
      using has_shape_nth [OF assms(1), of "p - 1"] 2 by simp
    show ?thesis unfolding row using 2 assms(3) lr
      by (auto simp: nth_Cons' nth_append)
  next
    case 3
    then have "pad1 m ! p = replicate (n_cols + 2) False"
      using len by (simp add: pad1_def nc nth_Cons' nth_append)
    then show ?thesis using 3 rep by simp
  qed
qed

lemma binary_dilate_shape:
  "has_shape m n_rows n_cols \<Longrightarrow> has_shape (binary_dilate m k) n_rows n_cols"
proof (cases "n_rows = 0")
  case True
  assume "has_shape m n_rows n_cols"
  then show ?thesis using True by (simp add: has_shape_def binary_dilate_def Let_def)
next
  case False
  assume h: "has_shape m n_rows n_cols"
  then have "n_cols_of m = n_cols" "length m = n_rows"
    using False n_cols_of_shape [OF h] by (auto simp: has_shape_def)
  then show ?thesis
    by (auto simp: has_shape_def list_all_length binary_dilate_def Let_def)
qed

lemma binary_dilate3_nth:
  assumes "has_shape m n_rows n_cols" and "i < n_rows" and "j < n_cols"
  shows "binary_dilate m 3 ! i ! j
    = (\<exists>a b. a < n_rows \<and> b < n_cols \<and> near a i \<and> near b j \<and> m ! a ! b)" (is "?lhs = ?rhs")
proof -
  have pos: "0 < n_rows" using assms(2) by simp
  have len: "length m = n_rows" and nc: "n_cols_of m = n_cols"
    using assms(1) n_cols_of_shape [OF assms(1) pos] by (auto simp: has_shape_def)
  define P where "P p q = pad1 m ! p ! q" for p q
  have P: "P (i + di) (j + dj)
      = (1 \<le> i + di \<and> i + di \<le> n_rows \<and> 1 \<le> j + dj \<and> j + dj \<le> n_cols
          \<and> m ! (i + di - 1) ! (j + dj - 1))" if "di \<le> 2" "dj \<le> 2" for di dj
    unfolding P_def using that assms(2,3) by (intro pad1_nth [OF assms(1) _ _ pos]) auto
  have lhs: "?lhs = (\<exists>di\<in>{0,1,2}. \<exists>dj\<in>{0,1,2}. P (i + di) (j + dj))"
    using assms(2,3) len nc by (simp add: binary_dilate_def Let_def P_def)
  show ?thesis
  proof
    assume ?lhs
    then have "\<exists>di\<in>{0,1,2}. \<exists>dj\<in>{0,1,2}. P (i + di) (j + dj)" by (simp only: lhs)
    then obtain di dj where dd: "di \<in> {0,1,2}" "dj \<in> {0,1,2}" and "P (i + di) (j + dj)"
      by blast
    have d: "di \<le> 2" "dj \<le> 2" using dd by auto
    have *: "1 \<le> i + di" "i + di \<le> n_rows" "1 \<le> j + dj" "j + dj \<le> n_cols"
        "m ! (i + di - 1) ! (j + dj - 1)"
      using P [OF d] \<open>P (i + di) (j + dj)\<close> by auto
    show ?rhs
      by (rule exI [of _ "i + di - 1"], rule exI [of _ "j + dj - 1"])
         (use * d in \<open>auto simp: near_def\<close>)
  next
    assume ?rhs
    then obtain a b where ab: "a < n_rows" "b < n_cols" "near a i" "near b j" "m ! a ! b"
      by blast
    define di where "di = a + 1 - i"
    define dj where "dj = b + 1 - j"
    have d: "di \<le> 2" "dj \<le> 2" "i + di = a + 1" "j + dj = b + 1"
      using ab by (auto simp: near_def di_def dj_def)
    then have "P (i + di) (j + dj)" using P [of di dj] ab by simp
    moreover have "di \<in> {0,1,2}" "dj \<in> {0,1,2}" using d by auto
    ultimately show ?lhs unfolding lhs by blast
  qed
qed

lemma invert_shape: "has_shape m n_rows n_cols \<Longrightarrow> has_shape (invert m) n_rows n_cols"
  by (auto simp: has_shape_def invert_def list_all_length)

lemma invert_nth:
  "has_shape m n_rows n_cols \<Longrightarrow> i < n_rows \<Longrightarrow> j < n_cols \<Longrightarrow> invert m ! i ! j = (\<not> m ! i ! j)"
  by (auto simp: has_shape_def invert_def list_all_length)

lemma closing_shape: "has_shape m n_rows n_cols \<Longrightarrow> has_shape (closing m) n_rows n_cols"
  by (simp add: closing_def Let_def invert_shape binary_dilate_shape)

lemma closing_nth:
  assumes "has_shape m n_rows n_cols" and "i < n_rows" and "j < n_cols"
  shows "closing m ! i ! j
    = (\<forall>a b. a < n_rows \<and> b < n_cols \<and> near a i \<and> near b j
          \<longrightarrow> (\<exists>c d. c < n_rows \<and> d < n_cols \<and> near c a \<and> near d b \<and> m ! c ! d))"
proof -
  let ?d1 = "binary_dilate m 3"
  have d1: "has_shape ?d1 n_rows n_cols" by (rule binary_dilate_shape [OF assms(1)])
  have i1: "has_shape (invert ?d1) n_rows n_cols" by (rule invert_shape [OF d1])
  have d2: "has_shape (binary_dilate (invert ?d1) 3) n_rows n_cols"
    by (rule binary_dilate_shape [OF i1])
  have "closing m ! i ! j = (\<not> binary_dilate (invert ?d1) 3 ! i ! j)"
    by (simp add: closing_def Let_def invert_nth [OF d2 assms(2,3)])
  also have "\<dots> = (\<not> (\<exists>a b. a < n_rows \<and> b < n_cols \<and> near a i \<and> near b j \<and> invert ?d1 ! a ! b))"
    by (simp only: binary_dilate3_nth [OF i1 assms(2,3)])
  also have "\<dots> = (\<forall>a b. a < n_rows \<and> b < n_cols \<and> near a i \<and> near b j \<longrightarrow> ?d1 ! a ! b)"
    using invert_nth [OF d1] by auto
  also have "\<dots> = (\<forall>a b. a < n_rows \<and> b < n_cols \<and> near a i \<and> near b j
          \<longrightarrow> (\<exists>c d. c < n_rows \<and> d < n_cols \<and> near c a \<and> near d b \<and> m ! c ! d))"
    using binary_dilate3_nth [OF assms(1)] by auto
  finally show ?thesis .
qed

lemma mask_eqI:
  assumes "has_shape a n_rows n_cols" and "has_shape b n_rows n_cols"
    and "\<And>i j. i < n_rows \<Longrightarrow> j < n_cols \<Longrightarrow> a ! i ! j = b ! i ! j"
  shows "a = b"
proof (rule nth_equalityI)
  show "length a = length b" using assms(1,2) by (simp add: has_shape_def)
next
  fix i assume i: "i < length a"
  then have i': "i < n_rows" using assms(1) by (simp add: has_shape_def)
  show "a ! i = b ! i"
  proof (rule nth_equalityI)
    show "length (a ! i) = length (b ! i)"
      using has_shape_nth [OF assms(1) i'] has_shape_nth [OF assms(2) i'] by simp
  next
    fix j assume "j < length (a ! i)"
    then have "j < n_cols" using has_shape_nth [OF assms(1) i'] by simp
    then show "a ! i ! j = b ! i ! j" using assms(3) i' by simp
  qed
qed

text \<open>
  Claim C8: on every boolean array (of any rectangular shape) the closing pass, a 3x3
  dilation followed by the complement of the 3x3 dilation of the complement, both padded
  with false, gives the same array when applied twice as when applied once.
\<close>

theorem closing_idempotent:
  assumes "has_shape m n_rows n_cols"
  shows "closing (closing m) = closing m"
proof (rule mask_eqI [of _ n_rows n_cols])
  show c1: "has_shape (closing m) n_rows n_cols" by (rule closing_shape [OF assms])
  show "has_shape (closing (closing m)) n_rows n_cols" by (rule closing_shape [OF c1])
  fix i j assume ij: "i < n_rows" "j < n_cols"
  define D where "D a b \<longleftrightarrow> (\<exists>c d. c < n_rows \<and> d < n_cols \<and> near c a \<and> near d b \<and> m ! c ! d)" for a b
  have C: "closing m ! a ! b
      = (\<forall>c d. c < n_rows \<and> d < n_cols \<and> near c a \<and> near d b \<longrightarrow> D c d)"
    if "a < n_rows" "b < n_cols" for a b
    unfolding D_def by (rule closing_nth [OF assms that])
  have DCD: "(\<exists>c d. c < n_rows \<and> d < n_cols \<and> near c a \<and> near d b \<and> closing m ! c ! d) = D a b"
    if ab: "a < n_rows" "b < n_cols" for a b
  proof
    assume "\<exists>c d. c < n_rows \<and> d < n_cols \<and> near c a \<and> near d b \<and> closing m ! c ! d"
    then obtain c d where cd: "c < n_rows" "d < n_cols" "near c a" "near d b" "closing m ! c ! d"
      by blast
    then show "D a b" using C [OF cd(1,2)] ab near_sym by blast
  next
    assume "D a b"
    then obtain c d where cd: "c < n_rows" "d < n_cols" "near c a" "near d b" "m ! c ! d"
      unfolding D_def by blast
    have "closing m ! c ! d"
      unfolding C [OF cd(1,2)] D_def using cd near_sym by blast
    then show "\<exists>c d. c < n_rows \<and> d < n_cols \<and> near c a \<and> near d b \<and> closing m ! c ! d"
      using cd by blast
  qed
  have "closing (closing m) ! i ! j
      = (\<forall>a b. a < n_rows \<and> b < n_cols \<and> near a i \<and> near b j
          \<longrightarrow> (\<exists>c d. c < n_rows \<and> d < n_cols \<and> near c a \<and> near d b \<and> closing m ! c ! d))"
    by (rule closing_nth [OF c1 ij])
  also have "\<dots> = (\<forall>a b. a < n_rows \<and> b < n_cols \<and> near a i \<and> near b j \<longrightarrow> D a b)"
    using DCD by blast
  also have "\<dots> = closing m ! i ! j" using C [OF ij] by simp
  finally show "closing (closing m) ! i ! j = closing m ! i ! j" .
qed

theorem closing_idempotent_witness:
  "has_shape [[False, True, False], [False, False, False], [True, False, False]] 3 3
    \<and> closing (closing [[False, True, False], [False, False, False], [True, False, False]])
        = closing [[False, True, False], [False, False, False], [True, False, False]]"
proof -
  have h: "has_shape [[False, True, False], [False, False, False], [True, False, False]] 3 3"
    by (simp add: has_shape_def)
  from closing_idempotent [OF h] h show ?thesis by simp
qed

subsection \<open>The spike scenario\<close>

lemma solar_geometry_west_45: "solar_geometry 1 1 270 45 = geom_west_45"
  by (simp add: solar_geometry_def radians_def fmod_def dir_eps_def Let_def tan_45 geom_west_45_def)

lemma spike_strips:
  "scan_strips geom_west_45 (1 / 100000) 0 3 spike_dem None = Inr spike_shadow"
  by code_simp

lemma spike_post: "post_process (dem_mask_nd spike_dem) spike_shadow False 3 = spike_shadow"
  by code_simp

lemma spike_write:
  "write_shadow_mask spike_dem spike_shadow (Some 1)
    = Inr (spike_shadow, map (map (\<lambda>s. if s then 1 else 0)) spike_shadow)"
  by code_simp

lemma spike_params:
  "\<bar>gt_1 (dem_gt spike_dem)\<bar> = 1" "\<bar>gt_5 (dem_gt spike_dem)\<bar> = 1"
  "eps_m_of fresh_tool 1 1 = 1 / 100000" "gap_max_of fresh_tool = 3"
  by (simp_all add: spike_dem_def gt_1_def gt_5_def eps_m_of_def fresh_tool_def gap_max_of_def
        RAY_GAP_MAX_def)

text \<open>
  Claim C1: on the 10 by 10 grid with the single spike of height 10 at row 5, column 5,
  for azimuth 270 and altitude 45 degrees, with the default gap limit 3, unlimited
  distance and no extra dilation, the mask that the internal scan hands to the writer,
  and the mask the writer leaves, are true exactly at row 5, columns 6 to 9.
\<close>

theorem spike_scenario:
  "shadow_scan fresh_tool spike_dem 270 45 MAX_DIST None False 3 = Inr spike_shadow
   \<and> snd (compute_shadow_octant fresh_tool spike_dem 270 45 out_path octants MAX_DIST
            EDGE_BIAS_PX None (Some 1) False 3)
       = Inr (spike_shadow, out_path, map (map (\<lambda>s. if s then 1 else 0)) spike_shadow)"
proof -
  have scan: "shadow_scan fresh_tool spike_dem 270 45 MAX_DIST None False 3 = Inr spike_shadow"
    by (simp add: shadow_scan_def spike_params solar_geometry_west_45 MAX_DIST_def
          spike_strips spike_post)
  then show ?thesis
    by (simp add: compute_shadow_octant_def spike_write)
qed

subsection \<open>The horizon sweep\<close>

lemma set2_shape: "has_shape m n_rows n_cols \<Longrightarrow> has_shape (set2 m i j v) n_rows n_cols"
proof (rule has_shapeI)
  assume h: "has_shape m n_rows n_cols"
  then show "length (set2 m i j v) = n_rows" by (simp add: has_shape_def set2_def)
  fix a assume a: "a < n_rows"
  then have "a < length m" using h by (simp add: has_shape_def)
  then show "length (set2 m i j v ! a) = n_cols"
    using has_shape_nth [OF h a] by (cases "a = i") (simp_all add: set2_def)
qed

lemma set2_nth:
  "has_shape m n_rows n_cols \<Longrightarrow> a < n_rows \<Longrightarrow> b < n_cols
    \<Longrightarrow> set2 m i j v ! a ! b = (if a = i \<and> b = j then v else m ! a ! b)"
proof -
  assume h: "has_shape m n_rows n_cols" and a: "a < n_rows" and b: "b < n_cols"
  have la: "a < length m" using h a by (simp add: has_shape_def)
  have lb: "b < length (m ! a)" using has_shape_nth [OF h a] b by simp
  show ?thesis
  proof (cases "a = i")
    case True
    then show ?thesis using la lb by (cases "b = j") (simp_all add: set2_def)
  next
    case False
    then show ?thesis by (simp add: set2_def)
  qed
qed

lemma sweep_shape:
  "has_shape sh n_rows n_cols \<Longrightarrow> has_shape (sweep t e maxd L0 Zs cs h sh) n_rows n_cols"
proof (induction cs arbitrary: h sh)
  case Nil
  then show ?case by simp
next
  case (Cons c cs)
  obtain Lk i j where c: "c = (Lk, i, j)" by (cases c)
  show ?case using Cons by (simp add: c Let_def set2_shape)
qed

lemma visited_length: "length (visited maxd L0 cs) \<le> length cs"
  by (induction cs) auto


lemma visited_unlimited: "maxd \<le> 0 \<Longrightarrow> visited maxd L0 cs = cs"
  by (induction cs) auto

lemma sweep_nth:
  assumes "has_shape sh n_rows n_cols" and "a < n_rows" and "b < n_cols"
  shows "sweep t e maxd L0 Zs cs h sh ! a ! b
    = (sh ! a ! b \<or> (\<exists>k < length (visited maxd L0 cs). snd (cs ! k) = (a, b)
          \<and> horizon_rule e (Some h) (map (target t L0 Zs) (visited maxd L0 cs)) ! k))"
  using assms(1)
proof (induction cs arbitrary: h sh)
  case Nil
  then show ?case by simp
next
  case (Cons c cs)
  obtain Lk i j where c: "c = (Lk, i, j)" by (cases c)
  let ?T = "Zs ! i ! j + t * (Lk - L0)"
  let ?sh = "if h > ?T - e then set2 sh i j True else sh"
  let ?h = "if ?T > h then ?T else h"
  have T: "target t L0 Zs c = ?T" by (simp add: target_def c)
  have hmax: "?h = max h ?T" by (simp add: max_def)
  have sh': "has_shape ?sh n_rows n_cols" using Cons.prems by (simp add: set2_shape)
  have v0: "?sh ! a ! b = (sh ! a ! b \<or> ((i, j) = (a, b) \<and> h > ?T - e))"
    using set2_nth [OF Cons.prems assms(2,3)] by auto
  show ?case
  proof (cases "maxd > 0 \<and> Lk - L0 > maxd")
    case True
    then have "sweep t e maxd L0 Zs (c # cs) h sh = ?sh" by (simp add: c Let_def)
    moreover have "visited maxd L0 (c # cs) = [c]" using True by (simp add: c)
    ultimately show ?thesis using v0 by (simp add: target_def c)
  next
    case False
    then have s: "sweep t e maxd L0 Zs (c # cs) h sh = sweep t e maxd L0 Zs cs ?h ?sh"
      by (auto simp: c Let_def)
    have v: "visited maxd L0 (c # cs) = c # visited maxd L0 cs" using False by (auto simp: c)
    let ?vs = "visited maxd L0 cs"
    let ?R = "\<lambda>h. horizon_rule e (Some h) (map (target t L0 Zs) ?vs)"
    have IH: "sweep t e maxd L0 Zs cs ?h ?sh ! a ! b
        = (?sh ! a ! b \<or> (\<exists>k < length ?vs. snd (cs ! k) = (a, b) \<and> ?R (max h ?T) ! k))"
      using Cons.IH [OF sh', of ?h] by (simp only: hmax)
    have split: "(\<exists>k < Suc n. P k) = (P 0 \<or> (\<exists>k < n. P (Suc k)))" for P n
      by (metis less_Suc_eq_0_disj)
    have rule0: "horizon_rule e (Some h) (map (target t L0 Zs) (c # ?vs))
        = (h > ?T - e) # ?R (max h ?T)"
      by (simp add: T)
    have rhs: "(\<exists>k < length (visited maxd L0 (c # cs)). snd ((c # cs) ! k) = (a, b)
          \<and> horizon_rule e (Some h) (map (target t L0 Zs) (visited maxd L0 (c # cs))) ! k)
        = (((i, j) = (a, b) \<and> h > ?T - e)
            \<or> (\<exists>k < length ?vs. snd (cs ! k) = (a, b) \<and> ?R (max h ?T) ! k))"
      unfolding v rule0 by (subst length_Cons, subst split) (simp add: c)
    show ?thesis
      unfolding s IH v0 rhs by blast
  qed
qed







subsection \<open>The cells of a strip\<close>

lemma j_range_bound:
  assumes "j \<in> set (j_range g n_cols St hw i)"
  shows "j < n_cols"
proof (cases "\<bar>g_dS_col g\<bar> > dir_eps")
  case True
  define j0 where "j0 = max 0 \<lfloor>(St - real i * g_dS_row g) / g_dS_col g - 1\<rfloor>"
  define j1 where "j1 = min (int n_cols - 1) \<lceil>(St - real i * g_dS_row g) / g_dS_col g + 1\<rceil>"
  have "j_range g n_cols St hw i = map nat [j0 .. j1]"
    using True by (simp add: j_range_def Let_def j0_def j1_def)
  with assms obtain z where z: "j0 \<le> z" "z \<le> j1" and j: "j = nat z" by auto
  have "0 \<le> j0" "j1 \<le> int n_cols - 1" by (simp_all add: j0_def j1_def)
  with z have "0 \<le> z" "z \<le> int n_cols - 1" by linarith+
  then show ?thesis unfolding j by linarith
next
  case False
  with assms have "j \<in> set [0 ..< n_cols]"
    by (simp add: j_range_def Let_def split: if_splits)
  then show ?thesis by simp
qed

lemma j_range_distinct: "distinct (j_range g n_cols St hw i)"
proof (cases "\<bar>g_dS_col g\<bar> > dir_eps")
  case True
  define j0 where "j0 = max 0 \<lfloor>(St - real i * g_dS_row g) / g_dS_col g - 1\<rfloor>"
  define j1 where "j1 = min (int n_cols - 1) \<lceil>(St - real i * g_dS_row g) / g_dS_col g + 1\<rceil>"
  have eq: "j_range g n_cols St hw i = map nat [j0 .. j1]"
    using True by (simp add: j_range_def Let_def j0_def j1_def)
  have j0: "0 \<le> j0" by (simp add: j0_def)
  have inj: "inj_on nat (set [j0 .. j1])"
    using j0 by (intro inj_onI) (simp, arith)
  have "distinct [j0 .. j1]" by (rule distinct_upto)
  with inj have "distinct (map nat [j0 .. j1])" by (simp only: distinct_map simp_thms)
  then show ?thesis by (simp only: eq)
next
  case False
  show ?thesis
  proof (cases "\<bar>real i * g_dS_row g - St\<bar> > hw")
    case True
    with False have "j_range g n_cols St hw i = []" by (simp add: j_range_def Let_def)
    then show ?thesis by simp
  next
    case inner: False
    with False have "j_range g n_cols St hw i = [0 ..< n_cols]"
      by (simp add: j_range_def Let_def)
    then show ?thesis by simp
  qed
qed

lemma rows_concat_mem:
  assumes "c \<in> set (concat (map (\<lambda>i. map (mk_cell g i) (f i)) [0 ..< n]))"
  shows "\<exists>i j. c = mk_cell g i j \<and> i < n \<and> j \<in> set (f i)"
proof -
  from assms obtain ys where ys: "ys \<in> set (map (\<lambda>i. map (mk_cell g i) (f i)) [0 ..< n])"
    and c: "c \<in> set ys" unfolding set_concat by blast
  from ys obtain i where i: "i < n" and "ys = map (mk_cell g i) (f i)" by auto
  with c obtain j where "j \<in> set (f i)" "c = mk_cell g i j" by auto
  with i show ?thesis by blast
qed


lemma strip_cells_rows:
  "\<exists>f. strip_cells g nd n_rows n_cols s
        = concat (map (\<lambda>i. map (mk_cell g i) (f i)) [0 ..< n_rows])
      \<and> (\<forall>i. distinct (f i))
      \<and> (\<forall>i j. j \<in> set (f i) \<longrightarrow> j < n_cols \<and> \<not> nd ! i ! j)"
proof (cases "strip_w g")
  case None
  let ?f = "\<lambda>i. filter (\<lambda>j. s \<noteq> 0 \<and> \<not> nd ! i ! j) [0 ..< n_cols]"
  have e1: "strip_cells g nd n_rows n_cols s
      = concat (map (\<lambda>i. map (mk_cell g i) (?f i)) [0 ..< n_rows])"
    by (simp add: strip_cells_def None)
  have e2: "\<forall>i. distinct (?f i)" by simp
  have e3: "\<forall>i j. j \<in> set (?f i) \<longrightarrow> j < n_cols \<and> \<not> nd ! i ! j" by simp
  show ?thesis by (rule exI [of _ ?f]) (intro conjI e1 e2 e3)
next
  case (Some w)
  let ?f = "\<lambda>i. filter (\<lambda>j. \<bar>S_ij g i j - of_int s * w\<bar> \<le> (1 / 2) * w \<and> \<not> nd ! i ! j)
      (j_range g n_cols (of_int s * w) ((1 / 2) * w) i)"
  have e1: "strip_cells g nd n_rows n_cols s
      = concat (map (\<lambda>i. map (mk_cell g i) (?f i)) [0 ..< n_rows])"
    by (simp add: strip_cells_def Some Let_def)
  have e2: "\<forall>i. distinct (?f i)" by (simp add: j_range_distinct)
  have e3: "\<forall>i j. j \<in> set (?f i) \<longrightarrow> j < n_cols \<and> \<not> nd ! i ! j"
    by (auto dest: j_range_bound)
  show ?thesis by (rule exI [of _ ?f]) (intro conjI e1 e2 e3)
qed

lemma strip_cells_mem:
  assumes "c \<in> set (strip_cells g nd n_rows n_cols s)"
  shows "\<exists>i j. c = mk_cell g i j \<and> i < n_rows \<and> j < n_cols \<and> \<not> nd ! i ! j"
proof -
  from strip_cells_rows [of g nd n_rows n_cols s] obtain f where
    f: "strip_cells g nd n_rows n_cols s
        = concat (map (\<lambda>i. map (mk_cell g i) (f i)) [0 ..< n_rows])"
    and b: "\<forall>i j. j \<in> set (f i) \<longrightarrow> j < n_cols \<and> \<not> nd ! i ! j" by blast
  from rows_concat_mem [OF assms [unfolded f]] obtain i j
    where "c = mk_cell g i j" "i < n_rows" "j \<in> set (f i)" by blast
  with b show ?thesis by blast
qed


subsection \<open>The gap fill\<close>
















subsection \<open>Order on masks\<close>






subsection \<open>Monotonicity of the sweep in the tangent of the altitude\<close>


lemma sweep_cong:
  assumes "\<And>L i j. (L, i, j) \<in> set cs \<Longrightarrow> Zs' ! i ! j = Zs ! i ! j"
  shows "sweep t e maxd L0 Zs' cs h sh = sweep t e maxd L0 Zs cs h sh"
  using assms
proof (induction cs arbitrary: h sh)
  case Nil
  then show ?case by simp
next
  case (Cons c cs)
  obtain Lk i j where c: "c = (Lk, i, j)" by (cases c)
  have z: "Zs' ! i ! j = Zs ! i ! j" using Cons.prems [of Lk i j] by (simp add: c)
  have IH: "sweep t e maxd L0 Zs' cs h' sh' = sweep t e maxd L0 Zs cs h' sh'" for h' sh'
  proof (rule Cons.IH)
    fix L a b assume "(L, a, b) \<in> set cs"
    then have "(L, a, b) \<in> set (c # cs)" by simp
    then show "Zs' ! a ! b = Zs ! a ! b" by (rule Cons.prems)
  qed
  show ?case by (simp add: c Let_def z IH)
qed

subsection \<open>Writing the strip values back\<close>

lemma write_back_shape:
  "has_shape sh n_rows n_cols \<Longrightarrow> has_shape (write_back xs sh) n_rows n_cols"
proof (induction xs arbitrary: sh)
  case Nil
  then show ?case by simp
next
  case (Cons x xs)
  obtain v L i j where x: "x = (v, (L, i, j))" by (cases x) auto
  show ?case using Cons.IH [OF set2_shape [OF Cons.prems, of i j v]] by (simp add: x)
qed

lemma write_back_other:
  assumes "has_shape sh n_rows n_cols" and "a < n_rows" and "b < n_cols"
    and "\<And>v L. (v, (L, a, b)) \<notin> set xs"
  shows "write_back xs sh ! a ! b = sh ! a ! b"
  using assms(1,4)
proof (induction xs arbitrary: sh)
  case Nil
  then show ?case by simp
next
  case (Cons x xs)
  obtain v L i j where x: "x = (v, (L, i, j))" by (cases x) auto
  have ne: "\<not> (a = i \<and> b = j)" using Cons.prems(2) [of v L] by (auto simp: x)
  have rest: "\<And>v L. (v, (L, a, b)) \<notin> set xs" using Cons.prems(2) by auto
  have "write_back (x # xs) sh ! a ! b = write_back xs (set2 sh i j v) ! a ! b"
    by (simp add: x)
  also have "\<dots> = set2 sh i j v ! a ! b"
    by (rule Cons.IH [OF set2_shape [OF Cons.prems(1)] rest])
  also have "\<dots> = sh ! a ! b"
    using set2_nth [OF Cons.prems(1) assms(2,3), of i j v] ne by simp
  finally show ?case .
qed




subsection \<open>The loop over the strips\<close>

lemma strips_loop_invariant:
  assumes "P sh" and "\<And>s x. s \<in> set ss \<Longrightarrow> P x \<Longrightarrow> P (body s x)"
  shows "(case strips_loop body fb si ss sh of
            Inl e \<Rightarrow> e = QgsProcessingException ''Aborted'' | Inr r \<Rightarrow> P r)"
  using assms
proof (induction ss arbitrary: si sh)
  case Nil
  then show ?case by simp
next
  case (Cons s ss)
  show ?case
  proof (cases "case fb of None \<Rightarrow> False | Some isCanceled \<Rightarrow> isCanceled si")
    case True
    then show ?thesis by simp
  next
    case False
    have e: "strips_loop body fb si (s # ss) sh = strips_loop body fb (Suc si) ss (body s sh)"
      using False by simp
    have p: "P (body s sh)" by (rule Cons.prems(2) [OF _ Cons.prems(1)]) simp
    have "case strips_loop body fb (Suc si) ss (body s sh) of
            Inl e \<Rightarrow> e = QgsProcessingException ''Aborted'' | Inr r \<Rightarrow> P r"
    proof (rule Cons.IH [OF p])
      fix s' x assume "s' \<in> set ss" "P x"
      then show "P (body s' x)" using Cons.prems(2) [of s' x] by simp
    qed
    then show ?thesis unfolding e .
  qed
qed



subsection \<open>One strip\<close>

lemma process_strip_unfold:
  "process_strip g e maxd gm dem s sh =
    (let ci = strip_cells g (dem_mask_nd dem) (dem_ny dem) (dem_nx dem) s;
         cs = sort_key fst ci;
         sw = sweep (g_tan_alt g) e maxd (fst (hd cs)) (dem_Z dem) cs (- (10 ^ 38)) sh
     in if ci = [] then sh
        else if gm > 0 \<and> 3 \<le> length cs
          then write_back (zip (gap_fill gm (map (\<lambda>(L, i, j). sw ! i ! j) cs) 0) cs) sw
          else sw)"
  by (simp add: process_strip_def Let_def)

lemma sorted_cells_mem:
  assumes "c \<in> set (sort_key fst (strip_cells g nd n_rows n_cols s))"
  shows "\<exists>L i j. c = (L, i, j) \<and> i < n_rows \<and> j < n_cols \<and> \<not> nd ! i ! j"
proof -
  from assms have "c \<in> set (strip_cells g nd n_rows n_cols s)" by simp
  from strip_cells_mem [OF this] obtain i j where
    "c = mk_cell g i j" "i < n_rows" "j < n_cols" "\<not> nd ! i ! j" by blast
  then show ?thesis by (simp add: mk_cell_def)
qed


lemma process_strip_shape:
  assumes "has_shape sh (dem_ny dem) (dem_nx dem)"
  shows "has_shape (process_strip g e maxd gm dem s sh) (dem_ny dem) (dem_nx dem)"
  unfolding process_strip_unfold Let_def
  by (simp add: assms sweep_shape write_back_shape)

lemma process_strip_nodata:
  assumes "has_shape sh (dem_ny dem) (dem_nx dem)" and "a < dem_ny dem" and "b < dem_nx dem"
    and "dem_mask_nd dem ! a ! b"
  shows "process_strip g e maxd gm dem s sh ! a ! b = sh ! a ! b"
proof -
  define ci where "ci = strip_cells g (dem_mask_nd dem) (dem_ny dem) (dem_nx dem) s"
  define cs where "cs = sort_key fst ci"
  define sw where "sw = sweep (g_tan_alt g) e maxd (fst (hd cs)) (dem_Z dem) cs (- (10 ^ 38)) sh"
  have notin: "(L, a, b) \<notin> set cs" for L
  proof
    assume "(L, a, b) \<in> set cs"
    from sorted_cells_mem [OF this [unfolded cs_def ci_def]] show False using assms(4) by auto
  qed
  have sws: "has_shape sw (dem_ny dem) (dem_nx dem)"
    unfolding sw_def by (rule sweep_shape [OF assms(1)])
  have "sw ! a ! b = (sh ! a ! b \<or> (\<exists>k < length (visited maxd (fst (hd cs)) cs).
      snd (cs ! k) = (a, b)
      \<and> horizon_rule e (Some (- (10 ^ 38)))
          (map (target (g_tan_alt g) (fst (hd cs)) (dem_Z dem))
             (visited maxd (fst (hd cs)) cs)) ! k))"
    unfolding sw_def by (rule sweep_nth [OF assms(1-3)])
  moreover have "snd (cs ! k) \<noteq> (a, b)" if "k < length (visited maxd (fst (hd cs)) cs)" for k
  proof
    assume e: "snd (cs ! k) = (a, b)"
    have "k < length cs" using that visited_length [of maxd "fst (hd cs)" cs] by simp
    then have "cs ! k \<in> set cs" by simp
    moreover have "cs ! k = (fst (cs ! k), a, b)" using e by (metis prod.collapse)
    ultimately show False using notin [of "fst (cs ! k)"] by simp
  qed
  ultimately have sw: "sw ! a ! b = sh ! a ! b" by blast
  have wb: "write_back (zip vs cs) sw ! a ! b = sw ! a ! b" for vs
  proof (rule write_back_other [OF sws assms(2,3)])
    fix v L
    show "(v, (L, a, b)) \<notin> set (zip vs cs)"
      using notin [of L] by (auto dest: set_zip_rightD)
  qed
  show ?thesis
    unfolding process_strip_unfold Let_def ci_def [symmetric] cs_def [symmetric]
      sw_def [symmetric]
    using sw wb by simp
qed

lemma process_strip_cong:
  assumes "\<And>i j. i < dem_ny dem \<Longrightarrow> j < dem_nx dem \<Longrightarrow> \<not> dem_mask_nd dem ! i ! j
      \<Longrightarrow> Zs' ! i ! j = dem_Z dem ! i ! j"
  shows "process_strip g e maxd gm (dem\<lparr>dem_Z := Zs'\<rparr>) s sh = process_strip g e maxd gm dem s sh"
proof -
  define cs where
    "cs = sort_key fst (strip_cells g (dem_mask_nd dem) (dem_ny dem) (dem_nx dem) s)"
  have "sweep (g_tan_alt g) e maxd (fst (hd cs)) Zs' cs (- (10 ^ 38)) sh
      = sweep (g_tan_alt g) e maxd (fst (hd cs)) (dem_Z dem) cs (- (10 ^ 38)) sh"
  proof (rule sweep_cong)
    fix L i j assume "(L, i, j) \<in> set cs"
    from sorted_cells_mem [OF this [unfolded cs_def]]
    show "Zs' ! i ! j = dem_Z dem ! i ! j" using assms by auto
  qed
  then show ?thesis
    unfolding process_strip_unfold Let_def by (simp add: cs_def)
qed








subsection \<open>Post-processing\<close>






lemma post_process_shape:
  assumes "has_shape nd n_rows n_cols" and "has_shape sh n_rows n_cols"
  shows "has_shape (post_process nd sh fat fk) n_rows n_cols"
  unfolding post_process_def Let_def
  by (simp add: binary_dilate_shape closing_shape assign_where_shape [OF assms])


lemma zeros_shape: "has_shape (zeros n_rows n_cols) n_rows n_cols"
  by (simp add: zeros_def has_shape_def list_all_length)

lemma zeros_nth: "i < n_rows \<Longrightarrow> j < n_cols \<Longrightarrow> \<not> zeros n_rows n_cols ! i ! j"
  by (simp add: zeros_def)



subsection \<open>The horizon rule of a strip\<close>



subsection \<open>Altitude monotonicity\<close>








subsection \<open>Nodata containment\<close>

lemma scan_strips_nodata:
  assumes "a < dem_ny dem" and "b < dem_nx dem" and "dem_mask_nd dem ! a ! b"
  shows "(case scan_strips g e maxd gm dem fb of
            Inl err \<Rightarrow> err = QgsProcessingException ''Aborted''
          | Inr raw \<Rightarrow> has_shape raw (dem_ny dem) (dem_nx dem) \<and> \<not> raw ! a ! b)"
  unfolding scan_strips_def Let_def
proof (rule strips_loop_invariant
    [where P = "\<lambda>x. has_shape x (dem_ny dem) (dem_nx dem) \<and> \<not> x ! a ! b"])
  show "has_shape (zeros (dem_ny dem) (dem_nx dem)) (dem_ny dem) (dem_nx dem)
      \<and> \<not> zeros (dem_ny dem) (dem_nx dem) ! a ! b"
    using zeros_shape zeros_nth [OF assms(1,2)] by simp
  fix s x assume x: "has_shape x (dem_ny dem) (dem_nx dem) \<and> \<not> x ! a ! b"
  then have sh: "has_shape x (dem_ny dem) (dem_nx dem)" and v: "\<not> x ! a ! b" by simp_all
  show "has_shape (process_strip g e maxd gm dem s x) (dem_ny dem) (dem_nx dem)
      \<and> \<not> process_strip g e maxd gm dem s x ! a ! b"
    using process_strip_shape [OF sh] process_strip_nodata [OF sh assms] v by simp
qed

lemma scan_strips_shape:
  "(case scan_strips g e maxd gm dem fb of
      Inl err \<Rightarrow> err = QgsProcessingException ''Aborted''
    | Inr raw \<Rightarrow> has_shape raw (dem_ny dem) (dem_nx dem))"
  unfolding scan_strips_def Let_def
proof (rule strips_loop_invariant [where P = "\<lambda>x. has_shape x (dem_ny dem) (dem_nx dem)"])
  show "has_shape (zeros (dem_ny dem) (dem_nx dem)) (dem_ny dem) (dem_nx dem)"
    by (rule zeros_shape)
  fix s and x :: mask assume "has_shape x (dem_ny dem) (dem_nx dem)"
  then show "has_shape (process_strip g e maxd gm dem s x) (dem_ny dem) (dem_nx dem)"
    by (rule process_strip_shape)
qed

lemma shadow_scan_shape:
  assumes "wf_dem dem"
  shows "(case shadow_scan self dem az alt maxd fb fat fk of
            Inl err \<Rightarrow> err = QgsProcessingException ''Aborted''
          | Inr m \<Rightarrow> has_shape m (dem_ny dem) (dem_nx dem))"
proof -
  define l where "l = scan_strips (solar_geometry \<bar>gt_1 (dem_gt dem)\<bar> \<bar>gt_5 (dem_gt dem)\<bar> az alt)
      (eps_m_of self \<bar>gt_1 (dem_gt dem)\<bar> \<bar>gt_5 (dem_gt dem)\<bar>) maxd (gap_max_of self) dem fb"
  have nd: "has_shape (dem_mask_nd dem) (dem_ny dem) (dem_nx dem)"
    using assms by (simp add: wf_dem_def)
  have s: "shadow_scan self dem az alt maxd fb fat fk
      = (case l of Inl err \<Rightarrow> Inl err
         | Inr sh \<Rightarrow> Inr (post_process (dem_mask_nd dem) sh fat fk))"
    by (simp add: shadow_scan_def Let_def l_def)
  have r: "(case l of Inl err \<Rightarrow> err = QgsProcessingException ''Aborted''
          | Inr raw \<Rightarrow> has_shape raw (dem_ny dem) (dem_nx dem))"
    unfolding l_def by (rule scan_strips_shape)
  show ?thesis
  proof (cases l)
    case (Inl err)
    then show ?thesis using r unfolding s by simp
  next
    case (Inr raw)
    then have "has_shape raw (dem_ny dem) (dem_nx dem)" using r by simp
    from post_process_shape [OF nd this, of fat fk] show ?thesis unfolding s by (simp add: Inr)
  qed
qed

lemma scan_strips_cong:
  assumes "\<And>i j. i < dem_ny dem \<Longrightarrow> j < dem_nx dem \<Longrightarrow> \<not> dem_mask_nd dem ! i ! j
      \<Longrightarrow> Zs' ! i ! j = dem_Z dem ! i ! j"
  shows "scan_strips g e maxd gm (dem\<lparr>dem_Z := Zs'\<rparr>) fb = scan_strips g e maxd gm dem fb"
proof -
  have "process_strip g e maxd gm (dem\<lparr>dem_Z := Zs'\<rparr>) = process_strip g e maxd gm dem"
    by (intro ext) (rule process_strip_cong [OF assms])
  then show ?thesis by (simp add: scan_strips_def Let_def)
qed

lemma mask_le_cong:
  assumes "has_shape nd n_rows n_cols" and "has_shape Zs n_rows n_cols"
    and "has_shape Zs' n_rows n_cols"
    and "\<And>i j. i < n_rows \<Longrightarrow> j < n_cols \<Longrightarrow> \<not> nd ! i ! j \<Longrightarrow> Zs' ! i ! j = Zs ! i ! j"
  shows "map2 (\<lambda>ndrow zrow. map2 (\<lambda>nd z. \<not> nd \<and> True \<and> z > (0 :: real)) ndrow zrow) nd Zs'
    = map2 (\<lambda>ndrow zrow. map2 (\<lambda>nd z. \<not> nd \<and> True \<and> z > 0) ndrow zrow) nd Zs"
    (is "?l = ?r")
proof (rule mask_eqI [of _ n_rows n_cols])
  show "has_shape ?l n_rows n_cols"
    using assms(1,3) by (auto simp: has_shape_def list_all_length)
  show "has_shape ?r n_rows n_cols"
    using assms(1,2) by (auto simp: has_shape_def list_all_length)
  fix i j assume ij: "i < n_rows" "j < n_cols"
  have l: "?l ! i ! j = (\<not> nd ! i ! j \<and> Zs' ! i ! j > 0)"
    using assms(1,3) ij by (auto simp: has_shape_def list_all_length)
  have r: "?r ! i ! j = (\<not> nd ! i ! j \<and> Zs ! i ! j > 0)"
    using assms(1,2) ij by (auto simp: has_shape_def list_all_length)
  show "?l ! i ! j = ?r ! i ! j" unfolding l r using assms(4) [OF ij] by auto
qed

lemma compute_shadow_octant_cong:
  assumes "wf_dem dem" and "has_shape Zs' (dem_ny dem) (dem_nx dem)"
    and "\<And>i j. i < dem_ny dem \<Longrightarrow> j < dem_nx dem \<Longrightarrow> \<not> dem_mask_nd dem ! i ! j
      \<Longrightarrow> Zs' ! i ! j = dem_Z dem ! i ! j"
  shows "compute_shadow_octant self (dem\<lparr>dem_Z := Zs'\<rparr>) az alt path oc maxd eb fb cv fat fk
    = compute_shadow_octant self dem az alt path oc maxd eb fb cv fat fk"
proof -
  have nd: "has_shape (dem_mask_nd dem) (dem_ny dem) (dem_nx dem)"
    and z: "has_shape (dem_Z dem) (dem_ny dem) (dem_nx dem)"
    using assms(1) by (simp_all add: wf_dem_def)
  have ss: "shadow_scan self (dem\<lparr>dem_Z := Zs'\<rparr>) az alt maxd fb fat fk
      = shadow_scan self dem az alt maxd fb fat fk"
    by (simp add: shadow_scan_def Let_def scan_strips_cong [OF assms(3)] split: sum.split)
  have w: "write_shadow_mask (dem\<lparr>dem_Z := Zs'\<rparr>) m cv = write_shadow_mask dem m cv" for m
    by (simp add: write_shadow_mask_def Let_def mask_le_cong [OF nd z assms(2,3), simplified])
  show ?thesis by (simp add: compute_shadow_octant_def Let_def ss w split: sum.split)
qed

text \<open>
  Claim C3, as stated, fails: the scan forces the nodata cells to false before the
  closing, and the closing can set them again, so the mask handed to the writer may be
  true at a nodata cell. Here the nodata cell at column 2 lies between two shadowed
  cells.
\<close>

theorem nodata_handed_counterexample:
  "dem_mask_nd gap_dem ! 0 ! 2
    \<and> shadow_scan fresh_tool gap_dem 270 45 MAX_DIST None False 3
        = Inr [[True, True, True, True]]"
proof -
  have g: "solar_geometry 1 1 270 45 = geom_west_45"
    by (simp add: solar_geometry_def radians_def fmod_def dir_eps_def Let_def tan_45
          geom_west_45_def)
  have p: "\<bar>gt_1 (dem_gt gap_dem)\<bar> = 1" "\<bar>gt_5 (dem_gt gap_dem)\<bar> = 1"
    "eps_m_of fresh_tool 1 1 = 1 / 100000" "gap_max_of fresh_tool = 3"
    by (simp_all add: gap_dem_def gt_1_def gt_5_def eps_m_of_def fresh_tool_def gap_max_of_def
          RAY_GAP_MAX_def)
  have s: "scan_strips geom_west_45 (1 / 100000) 0 3 gap_dem None
      = Inr [[False, True, False, True]]"
    by code_simp
  have c: "post_process (dem_mask_nd gap_dem) [[False, True, False, True]] False 3
      = [[True, True, True, True]]"
    by code_simp
  have a: "shadow_scan fresh_tool gap_dem 270 45 MAX_DIST None False 3
      = Inr [[True, True, True, True]]"
    by (simp add: shadow_scan_def p g MAX_DIST_def s c)
  have n: "dem_mask_nd gap_dem ! 0 ! 2" by (simp add: gap_dem_def)
  show ?thesis by (intro conjI n a)
qed

text \<open>
  Claim C3, amended: for every well-formed grid and every light direction, a nodata cell
  is false in the mask the strip loop produces (the scanner never marks it), is false in
  the mask as the writer leaves it and holds the nodata sentinel in the written raster
  (the scan fails only when cancelled); and the heights stored at nodata cells are never
  read: replacing them by any other values changes nothing in the result. The mask
  handed to the writer, after the closing, may be true at a nodata cell.
\<close>

theorem nodata_containment:
  assumes "wf_dem dem" and "i < dem_ny dem" and "j < dem_nx dem" and "dem_mask_nd dem ! i ! j"
    and "has_shape Zs' (dem_ny dem) (dem_nx dem)"
    and "\<And>a b. a < dem_ny dem \<Longrightarrow> b < dem_nx dem \<Longrightarrow> \<not> dem_mask_nd dem ! a ! b
      \<Longrightarrow> Zs' ! a ! b = dem_Z dem ! a ! b"
  shows "(case scan_strips g e maxd gm dem fb of
            Inl err \<Rightarrow> err = QgsProcessingException ''Aborted''
          | Inr raw \<Rightarrow> \<not> raw ! i ! j)
    \<and> (case snd (compute_shadow_octant self dem az alt path oc maxd eb fb cv fat fk) of
            Inl err \<Rightarrow> err = QgsProcessingException ''Aborted''
          | Inr (shadow, p, out) \<Rightarrow> \<not> shadow ! i ! j \<and> out ! i ! j = dem_nodata dem)
    \<and> compute_shadow_octant self (dem\<lparr>dem_Z := Zs'\<rparr>) az alt path oc maxd eb fb cv fat fk
        = compute_shadow_octant self dem az alt path oc maxd eb fb cv fat fk"
proof -
  have c1: "(case scan_strips g e maxd gm dem fb of
            Inl err \<Rightarrow> err = QgsProcessingException ''Aborted''
          | Inr raw \<Rightarrow> \<not> raw ! i ! j)"
    using scan_strips_nodata [OF assms(2-4), of g e maxd gm fb]
    by (cases "scan_strips g e maxd gm dem fb") simp_all
  have c2: "(case snd (compute_shadow_octant self dem az alt path oc maxd eb fb cv fat fk) of
            Inl err \<Rightarrow> err = QgsProcessingException ''Aborted''
          | Inr (shadow, p, out) \<Rightarrow> \<not> shadow ! i ! j \<and> out ! i ! j = dem_nodata dem)"
  proof (cases "shadow_scan self dem az alt maxd fb fat fk")
    case (Inl err)
    then have "err = QgsProcessingException ''Aborted''"
      using shadow_scan_shape [OF assms(1), of self az alt maxd fb fat fk] by simp
    then show ?thesis by (simp add: compute_shadow_octant_def Let_def Inl)
  next
    case (Inr m)
    then have m: "has_shape m (dem_ny dem) (dem_nx dem)"
      using shadow_scan_shape [OF assms(1), of self az alt maxd fb fat fk] by simp
    from write_shadow_mask_cell [OF assms(1) m assms(2,3), of cv] obtain shadow' out
      where w: "write_shadow_mask dem m cv = Inr (shadow', out)"
        and s: "shadow' ! i ! j = (if dem_mask_nd dem ! i ! j then False else m ! i ! j)"
        and o: "out ! i ! j =
          (let c = (case cv of Some v \<Rightarrow> v | None \<Rightarrow> 1)
           in if dem_mask_nd dem ! i ! j then dem_nodata dem
              else if \<bar>c - 5\<bar> < 1 / 10 ^ 6 \<and> dem_Z dem ! i ! j > 0 then 5
              else if m ! i ! j then c else 0)"
      by blast
    have "\<not> shadow' ! i ! j" using s assms(4) by simp
    moreover have "out ! i ! j = dem_nodata dem" using o assms(4) by (simp add: Let_def)
    ultimately show ?thesis by (simp add: compute_shadow_octant_def Let_def Inr w)
  qed
  have c3: "compute_shadow_octant self (dem\<lparr>dem_Z := Zs'\<rparr>) az alt path oc maxd eb fb cv fat fk
      = compute_shadow_octant self dem az alt path oc maxd eb fb cv fat fk"
    by (rule compute_shadow_octant_cong [OF assms(1,5,6)])
  show ?thesis by (intro conjI c1 c2 c3)
qed

theorem nodata_containment_witness:
  "wf_dem gap_dem \<and> 0 < dem_ny gap_dem \<and> 2 < dem_nx gap_dem \<and> dem_mask_nd gap_dem ! 0 ! 2
    \<and> has_shape [[10, 0, 77, 0]] (dem_ny gap_dem) (dem_nx gap_dem)
    \<and> compute_shadow_octant fresh_tool (gap_dem\<lparr>dem_Z := [[10, 0, 77, 0]]\<rparr>) 270 45 [] 32
          MAX_DIST EDGE_BIAS_PX None (Some 1) False 3
        = compute_shadow_octant fresh_tool gap_dem 270 45 [] 32
          MAX_DIST EDGE_BIAS_PX None (Some 1) False 3"
proof -
  have w: "wf_dem gap_dem" by (simp add: wf_dem_def gap_dem_def has_shape_def)
  have i: "0 < dem_ny gap_dem" and j: "2 < dem_nx gap_dem" by (simp_all add: gap_dem_def)
  have n: "dem_mask_nd gap_dem ! 0 ! 2" by (simp add: gap_dem_def)
  have z: "has_shape [[10, 0, 77, 0]] (dem_ny gap_dem) (dem_nx gap_dem)"
    by (simp add: gap_dem_def has_shape_def)
  have ag: "[[10, 0, 77, 0]] ! a ! b = dem_Z gap_dem ! a ! b"
    if "a < dem_ny gap_dem" "b < dem_nx gap_dem" "\<not> dem_mask_nd gap_dem ! a ! b" for a b
  proof -
    have a0: "a = 0" using that(1) by (simp add: gap_dem_def)
    have "b < 4" using that(2) by (simp add: gap_dem_def)
    then have "b = 0 \<or> b = 1 \<or> b = 2 \<or> b = 3" by linarith
    moreover have "b \<noteq> 2" using that(3) a0 by (auto simp: gap_dem_def)
    ultimately show ?thesis using a0 by (auto simp: gap_dem_def)
  qed
  note r = nodata_containment [OF w i j n z ag, where self = fresh_tool and az = 270
      and alt = 45 and path = "[]" and oc = 32 and maxd = MAX_DIST and eb = EDGE_BIAS_PX
      and fb = None and cv = "Some 1" and fat = False and fk = 3 and g = geom_west_45
      and e = 0 and gm = 0]
  note c3 = r [THEN conjunct2, THEN conjunct2]
  show ?thesis by (intro conjI w i j n z c3)
qed

subsection \<open>A flat surface\<close>








end
